theory Spec2Isabelle
  imports Complex_Main "HOL-Library.Multiset" "HOL-Library.Sublist" "HOL-Library.Monad_Syntax"
begin

section \<open>The statistical core of gas\_oracle.ts\<close>

text \<open>
  A JavaScript number is an IEEE double. The fee values handled by the core are amounts
  in wei, integer-valued doubles, and are modelled by the integer they denote. Every
  arithmetic operation of the source returns its exact result rounded to 53 significant
  bits, ties to the even significand, and is modelled so. The integers \<open>k\<close> that are
  doubles are those with \<open>rnd53 k = k\<close>; the others are not values of the program.
  Exponent overflow (magnitudes from \<open>2^1024\<close> on, which become \<^verbatim>\<open>Infinity\<close>) is not
  modelled in the core.
\<close>

subsection \<open>Rounding to double precision\<close>

text \<open>
  \<open>bits k\<close> is the length of the binary numeral of \<open>k\<close>; \<open>roundAt s k\<close> rounds \<open>k\<close> to
  the nearest multiple of \<open>2^s\<close>, a tie going to the even multiple; \<open>roundTo p k\<close> keeps
  \<open>p\<close> significant bits.
\<close>

function bits :: "int \<Rightarrow> nat" where
  "bits n = (if n \<le> 0 then 0 else Suc (bits (n div 2)))"
  by pat_completeness auto
termination
  by (relation "measure nat") auto

declare bits.simps [simp del]

definition roundAt :: "nat \<Rightarrow> int \<Rightarrow> int" where
  "roundAt s k =
     (let q = k div 2 ^ s;
          r = k mod 2 ^ s
      in if 2 ^ s < 2 * r \<or> (2 * r = 2 ^ s \<and> odd q) then (q + 1) * 2 ^ s else q * 2 ^ s)"

definition roundTo :: "nat \<Rightarrow> int \<Rightarrow> int" where
  "roundTo p k = roundAt (bits k - p) k"

text \<open>Rounding to double precision; it is symmetric in the sign.\<close>

definition rnd53 :: "int \<Rightarrow> int" where
  "rnd53 k = sgn k * roundTo 53 \<bar>k\<bar>"

subsection \<open>median (lines 29-33)\<close>

text \<open>
  \<^verbatim>\<open>const xs = nums.slice().sort((a,b)=>a-b); const m = Math.floor(xs.length/2);\<close>
  \<^verbatim>\<open>return xs.length ? (xs.length%2 ? xs[m] : Math.floor((xs[m-1]+xs[m])/2)) : 0;\<close>
  The comparator \<open>a - b\<close> has the sign of the exact difference, so the sort is the
  ascending numerical order. The sum of the two middle elements is rounded; halving an
  integer-valued double is exact, and \<open>Math.floor\<close> of the half is \<open>div 2\<close>.
\<close>

definition median :: "int list \<Rightarrow> int" where
  "median nums =
     (let xs = sort nums;
          m = length xs div 2
      in if length xs \<noteq> 0
         then (if length xs mod 2 \<noteq> 0 then xs ! m
               else rnd53 (xs ! (m - 1) + xs ! m) div 2)
         else 0)"

subsection \<open>rmOutliers (lines 35-40)\<close>

text \<open>The callback \<^verbatim>\<open>x => Math.abs(x - med)\<close>, with the difference rounded.\<close>

definition absDev :: "int \<Rightarrow> int \<Rightarrow> int" where
  "absDev med x = \<bar>rnd53 (x - med)\<bar>"

text \<open>
  \<^verbatim>\<open>median(...) || 1\<close> yields 1 exactly when the median of the deviations is 0
  (the only falsy integer). The product \<^verbatim>\<open>3*mad\<close> is rounded.
\<close>

definition rmOutliers :: "int list \<Rightarrow> int list" where
  "rmOutliers xs =
     (if length xs < 4 then xs
      else let med = median xs;
               mad0 = median (map (absDev med) xs);
               mad = (if mad0 \<noteq> 0 then mad0 else 1)
           in filter (\<lambda>x. absDev med x \<le> rnd53 (3 * mad)) xs)"

subsection \<open>The recommendation (lines 58-61)\<close>

text \<open>
  \<^verbatim>\<open>const jitter = 0.12; const tip = Math.max(prioMed, 1_000_000);\<close>
  \<^verbatim>\<open>const rec = Math.floor(baseMed * (1 + jitter)) + tip;\<close>

  The numbers \<open>0.12\<close> and \<open>1 + 0.12\<close> are not integers. The doubles that occur before
  \<open>Math.floor\<close> are all multiples of \<open>2^-56\<close> and are represented by their numerators:
  there the integer \<open>k\<close> stands for \<open>k / 2^56\<close>, and rounding to 53 significant bits is
  the same on the numerator.

  The literal \<open>0.12\<close> denotes the double nearest to 12/100. In units of \<open>2^-56\<close> that is
  the integer nearest to \<open>0.12 * 2^56 = 8646911284551352.32\<close>, which has 53 bits.
\<close>

definition jitter :: int where
  "jitter = 8646911284551352"

text \<open>\<^verbatim>\<open>1 + jitter\<close>: the exact sum \<open>2^56 + jitter\<close> has 57 bits and is rounded.\<close>

definition onePlusJitter :: int where
  "onePlusJitter = rnd53 (2 ^ 56 + jitter)"

text \<open>
  The product \<open>baseMed * (1 + jitter)\<close> is rounded, \<open>Math.floor\<close> is the quotient by
  \<open>2^56\<close>, and the sum with the tip is rounded.
\<close>

definition rec :: "int \<Rightarrow> int \<Rightarrow> int" where
  "rec baseMed prioMed =
     (let tip = max prioMed 1000000
      in rnd53 (rnd53 (baseMed * onePlusJitter) div 2 ^ 56 + tip))"

section \<open>The aggregation run (lines 42-71)\<close>

text \<open>
  \<^verbatim>\<open>type Sample = { name: string; base: number; prio: number; block: number }\<close>.
  The record is polymorphic in the type of numbers: the aggregation works on integer fee
  values, the collector below on what \<^verbatim>\<open>Number(...)\<close> returns.
\<close>

record 'n Sample =
  name :: string
  base :: 'n
  prio :: 'n
  block :: 'n

text \<open>
  The object passed to \<^verbatim>\<open>JSON.stringify\<close>. Its \<^verbatim>\<open>pretty\<close> field repeats the three
  fee values as strings in gwei with two decimals and is left out.
\<close>

record Recommendation =
  providers :: "string list"
  baseMedianWei :: int
  prioMedianWei :: int
  recommendedWei :: int

text \<open>
  A run either ends in \<^verbatim>\<open>console.error("no samples"); process.exit(1)\<close>, which ends the
  process at once with that exit status, or prints the report with \<^verbatim>\<open>console.log\<close>.
\<close>

datatype run = Exit string nat | Logged Recommendation

text \<open>Lines 49-70, as a function of the samples collected by the loop of lines 43-48.\<close>

definition aggregate :: "int Sample list \<Rightarrow> run" where
  "aggregate samples =
     (if length samples = 0 then Exit ''no samples'' 1
      else let bases = rmOutliers (map base samples);
               prios = rmOutliers (map prio samples);
               baseMed = median bases;
               prioMed = median prios
           in Logged \<lparr>providers = map name samples,
                      baseMedianWei = baseMed,
                      prioMedianWei = prioMed,
                      recommendedWei = rec baseMed prioMed\<rparr>)"

section \<open>The collector (lines 8-27 and 43-48)\<close>

subsection \<open>JavaScript values\<close>

text \<open>
  A number is a double: an integer \<open>Num n\<close>, a finite non-integer \<open>Frac m k\<close> with the
  value \<open>m / 2^k\<close> (\<open>m\<close> odd, \<open>k > 0\<close>), an infinity or \<open>NaN\<close>. The sign of zero is not
  modelled.
\<close>

datatype jsnum = Num int | Frac int nat | PosInf | NegInf | NaN

text \<open>
  \<^verbatim>\<open>p.send\<close> resolves with a value of type \<^verbatim>\<open>any\<close> decoded from the provider's JSON
  answer, or rejects. Strings are sequences of code units below 256, objects are
  association lists of their own properties.
\<close>

datatype jsval =
    JUndefined
  | JNull
  | JBool bool
  | JNumber jsnum
  | JString string
  | JArray "jsval list"
  | JObject "(string \<times> jsval) list"

text \<open>
  The outcome of the \<^verbatim>\<open>try\<close> block's calls to the provider: \<open>Rejects\<close> when the
  constructor or \<^verbatim>\<open>await p.send(...)\<close> throws, \<open>Resolves fee\<close> otherwise.
\<close>

datatype rpc_reply = Rejects | Resolves jsval

text \<open>Truthiness, as tested by \<^verbatim>\<open>||\<close>.\<close>

fun truthy :: "jsval \<Rightarrow> bool" where
  "truthy JUndefined = False"
| "truthy JNull = False"
| "truthy (JBool b) = b"
| "truthy (JNumber n) = (n \<noteq> NaN \<and> n \<noteq> Num 0)"
| "truthy (JString s) = (s \<noteq> [])"
| "truthy (JArray xs) = True"
| "truthy (JObject kvs) = True"

definition js_or :: "jsval \<Rightarrow> jsval \<Rightarrow> jsval" where
  "js_or a b = (if truthy a then a else b)"

text \<open>
  \<^verbatim>\<open>v.k\<close> for a property name \<open>k\<close> that no prototype defines (the three names read by
  \<^verbatim>\<open>sample\<close>): a \<^verbatim>\<open>TypeError\<close>, here \<open>None\<close>, on \<^verbatim>\<open>null\<close> and \<^verbatim>\<open>undefined\<close>; the own
  property of an object; \<^verbatim>\<open>undefined\<close> on everything else.
\<close>

fun getProp :: "jsval \<Rightarrow> string \<Rightarrow> jsval option" where
  "getProp JUndefined k = None"
| "getProp JNull k = None"
| "getProp (JObject kvs) k = Some (case map_of kvs k of None \<Rightarrow> JUndefined | Some v \<Rightarrow> v)"
| "getProp v k = Some JUndefined"

text \<open>
  \<^verbatim>\<open>v?.[0]\<close>: \<^verbatim>\<open>undefined\<close> on \<^verbatim>\<open>null\<close> and \<^verbatim>\<open>undefined\<close>, the first element of an
  array, the first character of a string, the property \<open>"0"\<close> of an object.
\<close>

fun index0 :: "jsval \<Rightarrow> jsval" where
  "index0 (JArray xs) = (case xs of [] \<Rightarrow> JUndefined | x # _ \<Rightarrow> x)"
| "index0 (JString s) = (case s of [] \<Rightarrow> JUndefined | c # _ \<Rightarrow> JString [c])"
| "index0 (JObject kvs) = (case map_of kvs ''0'' of None \<Rightarrow> JUndefined | Some v \<Rightarrow> v)"
| "index0 v = JUndefined"

subsection \<open>Number(...)\<close>

text \<open>
  The double nearest to the quotient \<open>p / q\<close> of a non-negative by a positive integer,
  ties to the even significand. The quotient is scaled by a power of two \<open>2^e\<close> so that
  its integer part has 53 bits (fewer for a subnormal, where \<open>e\<close> stays at \<open>-1074\<close>),
  rounded to an integer \<open>m\<close>, and \<open>m * 2^e\<close> is the result; from \<open>2^1024\<close> on it is
  \<^verbatim>\<open>Infinity\<close>.
\<close>

fun reduce :: "int \<Rightarrow> nat \<Rightarrow> jsnum" where
  "reduce m 0 = Num m"
| "reduce m (Suc k) = (if even m then reduce (m div 2) k else Frac m (Suc k))"

definition mkDouble :: "int \<Rightarrow> int \<Rightarrow> jsnum" where
  "mkDouble m e =
     (if 0 \<le> e
      then (let v = m * 2 ^ nat e in if 2 ^ 1024 \<le> v then PosInf else Num v)
      else reduce m (nat (- e)))"

definition scaleQuot :: "int \<Rightarrow> int \<Rightarrow> int \<Rightarrow> int \<times> int" where
  "scaleQuot e p q = (if 0 \<le> e then (p, q * 2 ^ nat e) else (p * 2 ^ nat (- e), q))"

definition roundQuot :: "int \<Rightarrow> int \<Rightarrow> jsnum" where
  "roundQuot p q =
     (if p = 0 then Num 0
      else let e0 = int (bits p) - int (bits q) - 53;
               (n0, d0) = scaleQuot e0 p q;
               e1 = (if 2 ^ 53 \<le> n0 div d0 then e0 + 1 else e0);
               e = max e1 (- 1074);
               (n, d) = scaleQuot e p q;
               qt = n div d;
               r = n mod d;
               m = (if d < 2 * r \<or> (2 * r = d \<and> odd qt) then qt + 1 else qt)
           in mkDouble m e)"

definition negate :: "jsnum \<Rightarrow> jsnum" where
  "negate n =
     (case n of
        Num v \<Rightarrow> Num (- v)
      | Frac m k \<Rightarrow> Frac (- m) k
      | PosInf \<Rightarrow> NegInf
      | NegInf \<Rightarrow> PosInf
      | NaN \<Rightarrow> NaN)"

text \<open>
  The conversion of a string: white space is trimmed; the empty string is 0; a
  hexadecimal, octal or binary literal has no sign; a decimal literal has an optional
  sign and is \<^verbatim>\<open>Infinity\<close> or digits with an optional fraction and an optional
  exponent, at least one digit before the exponent. Any other string gives \<open>NaN\<close>.
\<close>

definition isSpace :: "char \<Rightarrow> bool" where
  "isSpace c = (of_char c \<in> {9, 10, 11, 12, 13, 32, 160 :: nat})"

definition trim :: "string \<Rightarrow> string" where
  "trim s = rev (dropWhile isSpace (rev (dropWhile isSpace s)))"

definition digitVal :: "char \<Rightarrow> nat option" where
  "digitVal c =
     (let n = (of_char c :: nat)
      in if 48 \<le> n \<and> n \<le> 57 then Some (n - 48)
         else if 97 \<le> n \<and> n \<le> 102 then Some (n - 87)
         else if 65 \<le> n \<and> n \<le> 70 then Some (n - 55)
         else None)"

fun parseDigits :: "nat \<Rightarrow> int \<Rightarrow> string \<Rightarrow> int option" where
  "parseDigits radix acc [] = Some acc"
| "parseDigits radix acc (c # cs) =
     (case digitVal c of
        None \<Rightarrow> None
      | Some d \<Rightarrow> if d < radix then parseDigits radix (acc * int radix + int d) cs else None)"

definition parseRadix :: "nat \<Rightarrow> string \<Rightarrow> jsnum" where
  "parseRadix radix s =
     (if s = [] then NaN
      else case parseDigits radix 0 s of None \<Rightarrow> NaN | Some v \<Rightarrow> roundQuot v 1)"

definition isDigit :: "char \<Rightarrow> bool" where
  "isDigit c = (48 \<le> (of_char c :: nat) \<and> (of_char c :: nat) \<le> 57)"

text \<open>The exponent part: nothing, or \<open>e\<close> or \<open>E\<close>, an optional sign and digits.\<close>

definition parseExponent :: "string \<Rightarrow> int option" where
  "parseExponent s =
     (if s = [] then Some 0
      else if take 1 s = ''e'' \<or> take 1 s = ''E''
      then (let t = drop 1 s;
                neg = (take 1 t = ''-'');
                u = (if take 1 t = ''-'' \<or> take 1 t = ''+'' then drop 1 t else t)
            in if u = [] then None
               else case parseDigits 10 0 u of
                      None \<Rightarrow> None
                    | Some v \<Rightarrow> Some (if neg then - v else v))
      else None)"

definition parseDecimal :: "string \<Rightarrow> jsnum" where
  "parseDecimal s =
     (if s = ''Infinity'' then PosInf
      else let ip = takeWhile isDigit s;
               r1 = dropWhile isDigit s;
               fp = (if take 1 r1 = ''.'' then takeWhile isDigit (drop 1 r1) else []);
               r2 = (if take 1 r1 = ''.'' then dropWhile isDigit (drop 1 r1) else r1)
           in if ip = [] \<and> fp = [] then NaN
              else case (parseDigits 10 0 (ip @ fp), parseExponent r2) of
                     (Some m, Some ex) \<Rightarrow>
                       (let e10 = ex - int (length fp)
                        in if 0 \<le> e10 then roundQuot (m * 10 ^ nat e10) 1
                           else roundQuot m (10 ^ nat (- e10)))
                   | _ \<Rightarrow> NaN)"

definition strToNumber :: "string \<Rightarrow> jsnum" where
  "strToNumber s =
     (let t = trim s
      in if t = [] then Num 0
         else if take 2 t = ''0x'' \<or> take 2 t = ''0X'' then parseRadix 16 (drop 2 t)
         else if take 2 t = ''0o'' \<or> take 2 t = ''0O'' then parseRadix 8 (drop 2 t)
         else if take 2 t = ''0b'' \<or> take 2 t = ''0B'' then parseRadix 2 (drop 2 t)
         else if take 1 t = ''-'' then negate (parseDecimal (drop 1 t))
         else if take 1 t = ''+'' then parseDecimal (drop 1 t)
         else parseDecimal t)"

text \<open>
  The conversion of an array or an object goes through its string. An object with an own
  property \<^verbatim>\<open>toString\<close>, which hides the inherited method, has none and the
  conversion throws a \<^verbatim>\<open>TypeError\<close>; so does an array with such an element, since an
  array is the join of its elements' strings, \<^verbatim>\<open>null\<close> and \<^verbatim>\<open>undefined\<close> giving the
  empty string.
\<close>

fun throwsToString :: "jsval \<Rightarrow> bool" where
  "throwsToString (JObject kvs) = (''toString'' \<in> fst ` set kvs)"
| "throwsToString (JArray xs) =
     list_ex (\<lambda>x. x \<noteq> JUndefined \<and> x \<noteq> JNull \<and> throwsToString x) xs"
| "throwsToString v = False"

text \<open>
  The number denoted by the string of a value. The string of a number denotes that
  number; the strings \<^verbatim>\<open>undefined\<close>, \<^verbatim>\<open>null\<close>, \<^verbatim>\<open>true\<close>, \<^verbatim>\<open>false\<close> and
  \<^verbatim>\<open>[object Object]\<close> and a join with a comma denote none; the join of the empty array
  is empty and the join of a one-element array is the string of the element.
\<close>

fun stringNumber :: "jsval \<Rightarrow> jsnum" where
  "stringNumber (JNumber n) = n"
| "stringNumber (JString s) = strToNumber s"
| "stringNumber (JArray []) = Num 0"
| "stringNumber (JArray [x]) =
     (if x = JUndefined \<or> x = JNull then Num 0 else stringNumber x)"
| "stringNumber v = NaN"

fun toNumber :: "jsval \<Rightarrow> jsnum option" where
  "toNumber JUndefined = Some NaN"
| "toNumber JNull = Some (Num 0)"
| "toNumber (JBool b) = Some (Num (if b then 1 else 0))"
| "toNumber (JNumber n) = Some n"
| "toNumber (JString s) = Some (strToNumber s)"
| "toNumber v = (if throwsToString v then None else Some (stringNumber v))"

subsection \<open>sample (lines 14-27)\<close>

text \<open>
  \<^verbatim>\<open>prios.sort((a,b)=>a-b)\<close>. The sort reads the comparator's result \<open>a - b\<close> only
  through the test "negative", a \<open>NaN\<close> result counting as 0. \<open>lessNum a b\<close> is that test.
\<close>

fun finiteNum :: "jsnum \<Rightarrow> (int \<times> nat) option" where
  "finiteNum (Num n) = Some (n, 0)"
| "finiteNum (Frac m k) = Some (m, k)"
| "finiteNum v = None"

fun lessNum :: "jsnum \<Rightarrow> jsnum \<Rightarrow> bool" where
  "lessNum NaN b = False"
| "lessNum a NaN = False"
| "lessNum PosInf b = False"
| "lessNum NegInf b = (b \<noteq> NegInf)"
| "lessNum a PosInf = True"
| "lessNum a NegInf = False"
| "lessNum a b =
     (case (finiteNum a, finiteNum b) of
        (Some (m, k), Some (n, l)) \<Rightarrow> m * 2 ^ l < n * 2 ^ k
      | _ \<Rightarrow> False)"

text \<open>
  The order of the sort is fixed by the language when the comparator is consistent, which
  it is on numbers without \<open>NaN\<close>: ascending, equal numbers in their original order. With
  \<open>NaN\<close> among the numbers the language leaves the order to the engine; the model follows
  the sort of Node's engine on arrays of fewer than 64 elements: the longest run at the
  start that is non-descending, or strictly descending and then reversed, followed by
  binary insertion of the remaining elements from left to right.
\<close>

fun runLength :: "bool \<Rightarrow> jsnum \<Rightarrow> jsnum list \<Rightarrow> nat" where
  "runLength desc prev [] = 0"
| "runLength desc prev (c # cs) =
     (if lessNum c prev = desc then Suc (runLength desc c cs) else 0)"

function insertionPoint :: "jsnum \<Rightarrow> jsnum list \<Rightarrow> nat \<Rightarrow> nat \<Rightarrow> nat" where
  "insertionPoint pivot ws left right =
     (if left < right
      then (let mid = left + (right - left) div 2
            in if lessNum pivot (ws ! mid) then insertionPoint pivot ws left mid
               else insertionPoint pivot ws (mid + 1) right)
      else left)"
  by pat_completeness auto
termination
  by (relation "measure (\<lambda>(pivot, ws, left, right). right - left)") auto

definition binaryInsert :: "jsnum list \<Rightarrow> jsnum \<Rightarrow> jsnum list" where
  "binaryInsert ws pivot =
     (let i = insertionPoint pivot ws 0 (length ws) in take i ws @ pivot # drop i ws)"

definition sortNums :: "jsnum list \<Rightarrow> jsnum list" where
  "sortNums xs =
     (case xs of
        a # b # rest \<Rightarrow>
          (let desc = lessNum b a;
               n = 2 + runLength desc b rest;
               run = (if desc then rev (take n xs) else take n xs)
           in foldl binaryInsert run (drop n xs))
      | _ \<Rightarrow> xs)"

text \<open>
  \<^verbatim>\<open>v.map((x: string) => Number(x))\<close>: only an array has the method \<^verbatim>\<open>map\<close>; on any
  other value the call throws.
\<close>

definition mapNumber :: "jsval \<Rightarrow> jsnum list option" where
  "mapNumber v = (case v of JArray xs \<Rightarrow> those (map toNumber xs) | _ \<Rightarrow> None)"

text \<open>\<^verbatim>\<open>xs[i]\<close> on an array of numbers, and \<^verbatim>\<open>v || 0\<close> read as a number.\<close>

definition indexNum :: "jsnum list \<Rightarrow> nat \<Rightarrow> jsval" where
  "indexNum xs i = (if i < length xs then JNumber (xs ! i) else JUndefined)"

definition numOr0 :: "jsval \<Rightarrow> jsnum" where
  "numOr0 v = (case js_or v (JNumber (Num 0)) of JNumber n \<Rightarrow> n | _ \<Rightarrow> NaN)"

text \<open>
  The second argument is the outcome of the query sent to the \<^verbatim>\<open>url\<close> of the source's
  second parameter. Every exception inside the \<^verbatim>\<open>try\<close> block ends in
  \<^verbatim>\<open>return null\<close>, here \<open>None\<close>.
\<close>

definition sample :: "string \<Rightarrow> rpc_reply \<Rightarrow> jsnum Sample option" where
  "sample nm reply =
     (case reply of
        Rejects \<Rightarrow> None
      | Resolves fee \<Rightarrow>
          do {
            bf \<leftarrow> getProp fee ''baseFeePerGas'';
            let baseHex = js_or (index0 bf) (JString ''0x0'');
            base \<leftarrow> toNumber baseHex;
            rw \<leftarrow> getProp fee ''reward'';
            prios \<leftarrow> mapNumber (js_or (index0 rw) (JArray []));
            let prio = numOr0 (indexNum (sortNums prios) (length prios div 2));
            ob \<leftarrow> getProp fee ''oldestBlock'';
            blk \<leftarrow> toNumber (js_or ob (JNumber (Num 0)));
            Some \<lparr>name = nm, base = base, prio = prio, block = blk\<rparr>
          })"

subsection \<open>The collection loop (lines 8-12 and 43-48)\<close>

text \<open>
  \<^verbatim>\<open>process.env.X || d\<close> for the environment \<open>env\<close>, and the table \<^verbatim>\<open>RPCS\<close> in the order
  of \<^verbatim>\<open>Object.entries\<close>.
\<close>

definition envOr :: "(string \<Rightarrow> string option) \<Rightarrow> string \<Rightarrow> string \<Rightarrow> string" where
  "envOr env k d = (case env k of None \<Rightarrow> d | Some v \<Rightarrow> if v = [] then d else v)"

definition RPCS :: "(string \<Rightarrow> string option) \<Rightarrow> (string \<times> string) list" where
  "RPCS env =
     [(''ankr'', envOr env ''RPC_ANKR'' []),
      (''alchemy'', envOr env ''RPC_ALCH'' []),
      (''public'', envOr env ''RPC_PUB'' ''https://cloudflare-eth.com'')]"

text \<open>
  The loop skips an empty url, queries the others in turn (\<open>net url\<close> is the outcome of
  the query to \<open>url\<close>) and pushes the samples that are not \<^verbatim>\<open>null\<close>.
\<close>

fun collect :: "(string \<Rightarrow> rpc_reply) \<Rightarrow> (string \<times> string) list \<Rightarrow> jsnum Sample list" where
  "collect net [] = []"
| "collect net ((nm, url) # rest) =
     (if url = [] then collect net rest
      else case sample nm (net url) of
             None \<Rightarrow> collect net rest
           | Some s \<Rightarrow> s # collect net rest)"

section \<open>Properties\<close>

subsection \<open>Facts about rounding\<close>

lemma bits_less: "k < 2 ^ bits k"
proof (induction k rule: bits.induct)
  case (1 n)
  show ?case
  proof (cases "n \<le> 0")
    case True
    then show ?thesis by (simp add: bits.simps[of n] order.strict_trans1)
  next
    case False
    then have "n div 2 < 2 ^ bits (n div 2)" using 1 by simp
    then have "n < 2 * 2 ^ bits (n div 2)" by linarith
    then show ?thesis using False by (simp add: bits.simps[of n])
  qed
qed

lemma bits_ge: "0 < k \<Longrightarrow> 2 ^ (bits k - 1) \<le> k"
proof (induction k rule: bits.induct)
  case (1 n)
  have b: "bits n = Suc (bits (n div 2))" using 1(2) by (simp add: bits.simps[of n])
  show ?case
  proof (cases "n div 2 \<le> 0")
    case True
    then have "bits (n div 2) = 0" by (simp add: bits.simps[of "n div 2"])
    then show ?thesis using b 1(2) by simp
  next
    case False
    then have ih: "2 ^ (bits (n div 2) - 1) \<le> n div 2" using 1 by simp
    have "bits (n div 2) \<noteq> 0" using False by (simp add: bits.simps[of "n div 2"])
    then have "(2::int) ^ (bits n - 1) = 2 * 2 ^ (bits (n div 2) - 1)"
      using b by (cases "bits (n div 2)") auto
    also have "\<dots> \<le> 2 * (n div 2)" using ih by simp
    also have "\<dots> \<le> n" by linarith
    finally show ?thesis .
  qed
qed

lemma bits_le: assumes "k < 2 ^ n" shows "bits k \<le> n"
proof (rule ccontr)
  assume c: "\<not> bits k \<le> n"
  then have n: "n \<le> bits k - 1" by simp
  have "0 < k" using c by (cases "k \<le> 0") (auto simp: bits.simps[of k])
  then have "2 ^ (bits k - 1) \<le> k" by (rule bits_ge)
  moreover have "(2::int) ^ n \<le> 2 ^ (bits k - 1)" using n by (simp add: power_increasing)
  ultimately show False using assms by linarith
qed

lemma bits_mono: "a \<le> b \<Longrightarrow> bits a \<le> bits b"
  using bits_le[of a "bits b"] bits_less[of b] by linarith

lemma roundAt_lower: "(k div 2 ^ s) * 2 ^ s \<le> roundAt s k"
  by (simp add: roundAt_def Let_def)

lemma roundAt_upper: "roundAt s k \<le> (k div 2 ^ s + 1) * 2 ^ s"
  by (simp add: roundAt_def Let_def)

lemma roundAt_exact: "2 ^ s dvd k \<Longrightarrow> roundAt s k = k"
  by (auto simp: roundAt_def Let_def)

lemma roundAt_half: "2 * roundAt s k \<le> 2 * k + 2 ^ s"
proof -
  have k: "k = (k div 2 ^ s) * 2 ^ s + k mod 2 ^ s" by (simp add: div_mult_mod_eq)
  have nonneg: "0 \<le> k mod (2::int) ^ s" by simp
  show ?thesis
  proof (cases "2 ^ s < 2 * (k mod 2 ^ s) \<or> (2 * (k mod 2 ^ s) = 2 ^ s \<and> odd (k div 2 ^ s))")
    case True
    then have "roundAt s k = (k div 2 ^ s) * 2 ^ s + 2 ^ s"
      by (simp add: roundAt_def Let_def algebra_simps)
    moreover have "2 ^ s \<le> 2 * (k mod 2 ^ s)" using True by auto
    ultimately show ?thesis using k by linarith
  next
    case False
    then have "roundAt s k = (k div 2 ^ s) * 2 ^ s"
      by (simp add: roundAt_def Let_def)
    then show ?thesis using k nonneg
      by (smt (verit) zero_le_power)
  qed
qed

lemma roundAt_mono:
  assumes "a \<le> b"
  shows "roundAt s a \<le> roundAt s b"
proof -
  have qle: "a div 2 ^ s \<le> b div 2 ^ s" using assms by (simp add: zdiv_mono1)
  show ?thesis
  proof (cases "a div 2 ^ s = b div 2 ^ s")
    case False
    then have "a div 2 ^ s + 1 \<le> b div 2 ^ s" using qle by linarith
    then have "(a div 2 ^ s + 1) * 2 ^ s \<le> (b div 2 ^ s) * 2 ^ s"
      by (simp add: mult_right_mono)
    then show ?thesis
      using roundAt_upper[of s a] roundAt_lower[of b s] by linarith
  next
    case True
    have "a = (a div 2 ^ s) * 2 ^ s + a mod 2 ^ s" "b = (b div 2 ^ s) * 2 ^ s + b mod 2 ^ s"
      by (simp_all add: div_mult_mod_eq)
    then have "a mod 2 ^ s \<le> b mod 2 ^ s" using assms True by (smt (verit))
    then show ?thesis using True
      by (auto simp: roundAt_def Let_def)
  qed
qed

lemma roundTo_exact:
  assumes "m < 2 ^ p"
  shows "roundTo p (m * 2 ^ j) = m * 2 ^ j"
proof -
  have "m * 2 ^ j < 2 ^ p * 2 ^ j" using assms by simp
  then have "m * 2 ^ j < 2 ^ (p + j)" by (simp add: power_add)
  then have "bits (m * 2 ^ j) \<le> p + j" by (rule bits_le)
  then have "bits (m * 2 ^ j) - p \<le> j" by simp
  then have "(2::int) ^ (bits (m * 2 ^ j) - p) dvd 2 ^ j" by (simp add: le_imp_power_dvd)
  then have "(2::int) ^ (bits (m * 2 ^ j) - p) dvd m * 2 ^ j" by simp
  then show ?thesis unfolding roundTo_def by (rule roundAt_exact)
qed

lemma roundTo_mono:
  assumes "0 < p" "a \<le> b"
  shows "roundTo p a \<le> roundTo p b"
proof (cases "bits a - p = bits b - p")
  case True
  then show ?thesis unfolding roundTo_def using roundAt_mono[OF assms(2)] by simp
next
  case False
  define sa where "sa = bits a - p"
  define sb where "sb = bits b - p"
  have "bits a \<le> bits b" using assms(2) by (rule bits_mono)
  then have lt: "sa < sb" using False by (simp add: sa_def sb_def)
  then have bb: "bits b = p + sb" by (simp add: sb_def)
  have ba: "bits a \<le> p + sa" by (simp add: sa_def)
  have "0 < b" using bb lt by (cases "b \<le> 0") (auto simp: bits.simps[of b])
  then have "2 ^ (bits b - 1) \<le> b" by (rule bits_ge)
  moreover have "bits b - 1 = (p - 1) + sb" using bb assms(1) by simp
  ultimately have b_lo: "2 ^ (p - 1) * 2 ^ sb \<le> b" by (simp add: power_add)
  have "(2 ^ (p - 1) * 2 ^ sb) div 2 ^ sb \<le> b div 2 ^ sb" using b_lo by (rule zdiv_mono1) simp
  then have "2 ^ (p - 1) \<le> b div 2 ^ sb" by simp
  then have "2 ^ (p - 1) * 2 ^ sb \<le> (b div 2 ^ sb) * 2 ^ sb" by (simp add: mult_right_mono)
  also have "\<dots> \<le> roundTo p b" unfolding roundTo_def sb_def by (rule roundAt_lower)
  finally have lo: "2 ^ (p - 1) * 2 ^ sb \<le> roundTo p b" .
  have "a < 2 ^ bits a" by (rule bits_less)
  also have "\<dots> \<le> 2 ^ (p + sa)" using ba by (simp add: power_increasing)
  finally have a_hi: "a < 2 ^ p * 2 ^ sa" by (simp add: power_add)
  have "(a div 2 ^ sa) * 2 ^ sa \<le> a"
  proof -
    have "0 \<le> a mod (2::int) ^ sa" by simp
    then show ?thesis using div_mult_mod_eq[of a "2 ^ sa"] by linarith
  qed
  then have "(a div 2 ^ sa) * 2 ^ sa < 2 ^ p * 2 ^ sa" using a_hi by linarith
  then have "a div 2 ^ sa < 2 ^ p" by (simp add: mult_less_cancel_right)
  then have "a div 2 ^ sa + 1 \<le> 2 ^ p" by simp
  then have "(a div 2 ^ sa + 1) * 2 ^ sa \<le> 2 ^ p * 2 ^ sa" by (rule mult_right_mono) simp
  moreover have "roundTo p a \<le> (a div 2 ^ sa + 1) * 2 ^ sa"
    unfolding roundTo_def sa_def by (rule roundAt_upper)
  ultimately have hi: "roundTo p a \<le> 2 ^ p * 2 ^ sa" by linarith
  have "p + sa \<le> (p - 1) + sb" using lt assms(1) by simp
  then have "(2::int) ^ (p + sa) \<le> 2 ^ ((p - 1) + sb)" by (rule power_increasing) simp
  then have "(2::int) ^ p * 2 ^ sa \<le> 2 ^ (p - 1) * 2 ^ sb" by (simp add: power_add)
  then show ?thesis using lo hi by linarith
qed

lemma roundTo_nonneg: "0 \<le> k \<Longrightarrow> 0 \<le> roundTo p k"
proof -
  assume "0 \<le> k"
  then have "0 \<le> k div 2 ^ (bits k - p)" by (simp add: pos_imp_zdiv_nonneg_iff)
  then have "0 \<le> (k div 2 ^ (bits k - p)) * 2 ^ (bits k - p)" by simp
  then show ?thesis
    unfolding roundTo_def using roundAt_lower[of k "bits k - p"] by linarith
qed

text \<open>The result of rounding has at most \<open>p\<close> significant bits.\<close>

lemma roundTo_form:
  assumes "0 \<le> k" and "0 < p"
  shows "\<exists>m j. roundTo p k = m * 2 ^ j \<and> 0 \<le> m \<and> m < 2 ^ p"
proof -
  define s where "s = bits k - p"
  define q where "q = k div 2 ^ s"
  have q0: "0 \<le> q" using assms(1) by (simp add: q_def pos_imp_zdiv_nonneg_iff)
  have "bits k \<le> p + s" by (simp add: s_def)
  then have "(2::int) ^ bits k \<le> 2 ^ (p + s)" by (rule power_increasing) simp
  then have "k < 2 ^ p * 2 ^ s" using bits_less[of k] by (simp add: power_add)
  moreover have "q * 2 ^ s \<le> k"
  proof -
    have "0 \<le> k mod (2::int) ^ s" by simp
    then show ?thesis using div_mult_mod_eq[of k "2 ^ s"] unfolding q_def by linarith
  qed
  ultimately have "q * 2 ^ s < 2 ^ p * 2 ^ s" by linarith
  then have qp: "q < 2 ^ p" by (simp add: mult_less_cancel_right)
  have cases: "roundTo p k = q * 2 ^ s \<or> roundTo p k = (q + 1) * 2 ^ s"
    by (auto simp: roundTo_def roundAt_def Let_def s_def q_def)
  show ?thesis
  proof (cases "roundTo p k = q * 2 ^ s")
    case True
    then show ?thesis using q0 qp by blast
  next
    case False
    then have r: "roundTo p k = (q + 1) * 2 ^ s" using cases by blast
    show ?thesis
    proof (cases "q + 1 < 2 ^ p")
      case True
      then show ?thesis using r q0 by (intro exI[of _ "q + 1"] exI[of _ s]) simp
    next
      case False
      then have "q + 1 = 2 ^ p" using qp by linarith
      then have "roundTo p k = 1 * 2 ^ (p + s)" using r by (simp add: power_add)
      moreover have "(1::int) < 2 ^ p" using assms(2) by (simp add: one_less_power)
      ultimately show ?thesis by (intro exI[of _ 1] exI[of _ "p + s"]) simp
    qed
  qed
qed

lemma rnd53_nonneg_eq: "0 \<le> k \<Longrightarrow> rnd53 k = roundTo 53 k"
  by (cases "k = 0") (auto simp: rnd53_def roundTo_def roundAt_def bits.simps[of 0])

lemma rnd53_zero: "rnd53 0 = 0"
  by (simp add: rnd53_def)

lemma rnd53_neg: "rnd53 (- k) = - rnd53 k"
  by (simp add: rnd53_def sgn_minus)

lemma rnd53_nonneg: "0 \<le> k \<Longrightarrow> 0 \<le> rnd53 k"
  using roundTo_nonneg[of k 53] by (simp add: rnd53_nonneg_eq)

lemma rnd53_abs: "\<bar>rnd53 k\<bar> = rnd53 \<bar>k\<bar>"
proof (cases "0 \<le> k")
  case True
  then show ?thesis using rnd53_nonneg[of k] by simp
next
  case False
  then have "0 \<le> - k" by simp
  then have "0 \<le> rnd53 (- k)" by (rule rnd53_nonneg)
  then show ?thesis using False rnd53_neg[of k] by simp
qed

lemma rnd53_mono_nonneg: "0 \<le> a \<Longrightarrow> a \<le> b \<Longrightarrow> rnd53 a \<le> rnd53 b"
  using roundTo_mono[of 53 a b] by (simp add: rnd53_nonneg_eq)

text \<open>Rounding to nearest is monotone.\<close>

lemma rnd53_mono:
  assumes "a \<le> b"
  shows "rnd53 a \<le> rnd53 b"
proof (cases "0 \<le> a")
  case True
  then show ?thesis using assms by (rule rnd53_mono_nonneg)
next
  case a: False
  show ?thesis
  proof (cases "0 \<le> b")
    case True
    have "0 \<le> rnd53 (- a)" using a by (intro rnd53_nonneg) simp
    then have "rnd53 a \<le> 0" using rnd53_neg[of a] by simp
    then show ?thesis using rnd53_nonneg[OF True] by linarith
  next
    case False
    then have "rnd53 (- b) \<le> rnd53 (- a)" using assms by (intro rnd53_mono_nonneg) simp_all
    then show ?thesis using rnd53_neg[of a] rnd53_neg[of b] by simp
  qed
qed

lemma rnd53_exact: "0 \<le> m \<Longrightarrow> m < 2 ^ 53 \<Longrightarrow> rnd53 (m * 2 ^ j) = m * 2 ^ j"
  using roundTo_exact[of m 53 j] by (simp add: rnd53_nonneg_eq)

lemma rnd53_half:
  assumes "0 \<le> k" "k < 2 ^ n"
  shows "2 * rnd53 k \<le> 2 * k + 2 ^ (n - 53)"
proof -
  have "bits k - 53 \<le> n - 53" using bits_le[OF assms(2)] by simp
  then have "(2::int) ^ (bits k - 53) \<le> 2 ^ (n - 53)" by (rule power_increasing) simp
  moreover have "2 * rnd53 k \<le> 2 * k + 2 ^ (bits k - 53)"
    using roundAt_half[of "bits k - 53" k] assms(1) by (simp add: rnd53_nonneg_eq roundTo_def)
  ultimately show ?thesis by linarith
qed

text \<open>
  Every integer of magnitude at most \<open>2^53\<close> is a double: rounding leaves it unchanged.
\<close>

lemma rnd53_safe_integer:
  assumes "\<bar>k\<bar> \<le> 2 ^ 53"
  shows "rnd53 k = k"
proof -
  have "roundTo 53 \<bar>k\<bar> = \<bar>k\<bar>"
  proof (cases "\<bar>k\<bar> = 2 ^ 53")
    case True
    then show ?thesis using roundTo_exact[of 1 53 53] by simp
  next
    case False
    then have "\<bar>k\<bar> < 2 ^ 53" using assms by linarith
    then show ?thesis using roundTo_exact[of "\<bar>k\<bar>" 53 0] by simp
  qed
  then show ?thesis by (simp add: rnd53_def sgn_if)
qed

text \<open>
  The integers \<open>k\<close> with \<open>rnd53 k = k\<close> are the integer-valued doubles. A rounded value is
  one of them, and so is the double of one of them.
\<close>

lemma rnd53_idem: "rnd53 (rnd53 k) = rnd53 k"
proof -
  have nn: "rnd53 (rnd53 j) = rnd53 j" if j0: "0 \<le> j" for j
  proof -
    obtain m i where "roundTo 53 j = m * 2 ^ i" "0 \<le> m" "m < 2 ^ 53"
      using roundTo_form[OF j0, of 53] by auto
    then show ?thesis using rnd53_exact[of m i] j0 by (simp add: rnd53_nonneg_eq)
  qed
  show ?thesis
  proof (cases "0 \<le> k")
    case True
    then show ?thesis by (rule nn)
  next
    case False
    then have "rnd53 (rnd53 (- k)) = rnd53 (- k)" by (intro nn) simp
    then show ?thesis by (simp add: rnd53_neg)
  qed
qed

lemma rnd53_twice:
  assumes "rnd53 k = k"
  shows "rnd53 (2 * k) = 2 * k"
proof -
  have nn: "rnd53 (2 * j) = 2 * j" if j0: "0 \<le> j" and jd: "rnd53 j = j" for j
  proof -
    obtain m i where f: "roundTo 53 j = m * 2 ^ i" "0 \<le> m" "m < 2 ^ 53"
      using roundTo_form[OF j0, of 53] by auto
    then have "j = m * 2 ^ i" using j0 jd by (simp add: rnd53_nonneg_eq)
    then have "2 * j = m * 2 ^ Suc i" by simp
    then show ?thesis using rnd53_exact[OF f(2,3), of "Suc i"] by (simp only:)
  qed
  show ?thesis
  proof (cases "0 \<le> k")
    case True
    then show ?thesis using assms by (rule nn)
  next
    case False
    have "rnd53 (- k) = - k" using assms by (simp add: rnd53_neg)
    then have "rnd53 (2 * (- k)) = 2 * (- k)" using False by (intro nn) simp_all
    then show ?thesis using rnd53_neg[of "2 * k"] by simp
  qed
qed

subsection \<open>Facts about median\<close>

lemma median_sorted_perm:
  assumes "sorted ys" and "mset ys = mset xs"
  shows "median xs =
     (if xs = [] then 0
      else if odd (length xs) then ys ! (length xs div 2)
      else rnd53 (ys ! (length xs div 2 - 1) + ys ! (length xs div 2)) div 2)"
proof -
  have "sort xs = ys" using assms by (simp add: properties_for_sort)
  moreover have "length ys = length xs" using assms(2) by (metis size_mset)
  ultimately show ?thesis by (auto simp: median_def Let_def odd_iff_mod_2_eq_one)
qed

text \<open>
  The median of a non-empty sequence lies between any two doubles that bound its
  elements.
\<close>

lemma median_ge:
  assumes "xs \<noteq> []" and "\<forall>x\<in>set xs. l \<le> x" and "rnd53 (2 * l) = 2 * l"
  shows "l \<le> median xs"
proof -
  let ?s = "sort xs"
  have len: "length ?s = length xs" by simp
  have n0: "0 < length xs" using assms(1) by simp
  have ne: "?s \<noteq> []" using assms(1) by (metis len length_0_conv)
  have all: "\<And>i. i < length xs \<Longrightarrow> l \<le> ?s ! i"
    using assms(2) by (metis len nth_mem set_sort)
  show ?thesis
  proof (cases "length xs mod 2 \<noteq> 0")
    case True
    then show ?thesis
      using n0 ne all[of "length xs div 2"] by (simp add: median_def Let_def)
  next
    case False
    have "length xs div 2 - 1 < length xs" "length xs div 2 < length xs"
      using n0 by linarith+
    then have "l \<le> ?s ! (length xs div 2 - 1)" "l \<le> ?s ! (length xs div 2)"
      by (auto intro: all)
    then have "2 * l \<le> ?s ! (length xs div 2 - 1) + ?s ! (length xs div 2)" by linarith
    then have "rnd53 (2 * l) \<le> rnd53 (?s ! (length xs div 2 - 1) + ?s ! (length xs div 2))"
      by (rule rnd53_mono)
    then have "l \<le> rnd53 (?s ! (length xs div 2 - 1) + ?s ! (length xs div 2)) div 2"
      using assms(3) by linarith
    then show ?thesis using False n0 ne by (simp add: median_def Let_def)
  qed
qed

lemma median_le:
  assumes "xs \<noteq> []" and "\<forall>x\<in>set xs. x \<le> u" and "rnd53 (2 * u) = 2 * u"
  shows "median xs \<le> u"
proof -
  let ?s = "sort xs"
  have len: "length ?s = length xs" by simp
  have n0: "0 < length xs" using assms(1) by simp
  have ne: "?s \<noteq> []" using assms(1) by (metis len length_0_conv)
  have all: "\<And>i. i < length xs \<Longrightarrow> ?s ! i \<le> u"
    using assms(2) by (metis len nth_mem set_sort)
  show ?thesis
  proof (cases "length xs mod 2 \<noteq> 0")
    case True
    then show ?thesis
      using n0 ne all[of "length xs div 2"] by (simp add: median_def Let_def)
  next
    case False
    have "length xs div 2 - 1 < length xs" "length xs div 2 < length xs"
      using n0 by linarith+
    then have "?s ! (length xs div 2 - 1) \<le> u" "?s ! (length xs div 2) \<le> u"
      by (auto intro: all)
    then have "?s ! (length xs div 2 - 1) + ?s ! (length xs div 2) \<le> 2 * u" by linarith
    then have "rnd53 (?s ! (length xs div 2 - 1) + ?s ! (length xs div 2)) \<le> rnd53 (2 * u)"
      by (rule rnd53_mono)
    then have "rnd53 (?s ! (length xs div 2 - 1) + ?s ! (length xs div 2)) div 2 \<le> u"
      using assms(3) by linarith
    then show ?thesis using False n0 ne by (simp add: median_def Let_def)
  qed
qed

text \<open>A monotone map commutes with sorting.\<close>

lemma sort_map_rnd53: "sort (map rnd53 xs) = map rnd53 (sort xs)"
proof (rule properties_for_sort)
  show "mset (map rnd53 (sort xs)) = mset (map rnd53 xs)" by simp
  have "sorted_wrt (\<lambda>x y. rnd53 x \<le> rnd53 y) (sort xs)"
    by (rule sorted_wrt_mono_rel[of _ "(\<le>)"]) (auto intro: rnd53_mono)
  then show "sorted (map rnd53 (sort xs))" by (simp add: sorted_map)
qed

text \<open>
  If the median of non-negative values is 0, so is the median of the rounded values.
\<close>

lemma median_map_rnd53_zero:
  assumes "\<forall>d\<in>set ds. 0 \<le> d" and "median ds = 0"
  shows "median (map rnd53 ds) = 0"
proof (cases "ds = []")
  case True
  then show ?thesis by (simp add: median_def)
next
  case ne: False
  let ?s = "sort ds"
  let ?m = "length ds div 2"
  have n0: "0 < length ds" using ne by simp
  have sne: "?s \<noteq> []" using ne by (metis length_0_conv length_sort)
  have nn: "\<And>i. i < length ds \<Longrightarrow> 0 \<le> ?s ! i"
    using assms(1) by (metis length_sort nth_mem set_sort)
  have i1: "?m < length ds" "?m - 1 < length ds" using n0 by linarith+
  have unfold: "median (map rnd53 ds) =
      (if length ds mod 2 \<noteq> 0 then rnd53 (?s ! ?m)
       else rnd53 (rnd53 (?s ! (?m - 1)) + rnd53 (?s ! ?m)) div 2)"
    using ne sne i1 by (simp add: median_def Let_def sort_map_rnd53)
  show ?thesis
  proof (cases "length ds mod 2 \<noteq> 0")
    case True
    then have "?s ! ?m = 0" using assms(2) n0 sne by (simp add: median_def Let_def)
    then show ?thesis using True unfold by (simp add: rnd53_zero)
  next
    case False
    define a where "a = ?s ! (?m - 1)"
    define b where "b = ?s ! ?m"
    have ab: "0 \<le> a" "0 \<le> b"
      unfolding a_def b_def using i1 by (auto intro: nn)
    have z: "rnd53 (a + b) div 2 = 0"
      using assms(2) False n0 sne by (simp add: median_def Let_def a_def b_def)
    have small: "a + b \<le> 1"
    proof (rule ccontr)
      assume "\<not> a + b \<le> 1"
      then have "2 \<le> a + b" by simp
      then have "rnd53 2 \<le> rnd53 (a + b)" by (rule rnd53_mono)
      moreover have "rnd53 2 = 2" by (rule rnd53_safe_integer) simp
      ultimately show False using z by linarith
    qed
    then have "\<bar>a\<bar> \<le> 2 ^ 53" "\<bar>b\<bar> \<le> 2 ^ 53" using ab by simp_all
    then have "rnd53 a = a" "rnd53 b = b" by (simp_all add: rnd53_safe_integer)
    then show ?thesis using False unfold z by (simp add: a_def b_def)
  qed
qed

subsection \<open>Facts about the outlier filter\<close>

lemma absDev_nonneg: "0 \<le> absDev med x"
  by (simp add: absDev_def)

lemma absDev_rnd53: "absDev med x = rnd53 \<bar>x - med\<bar>"
  by (simp add: absDev_def rnd53_abs)

lemma absDev_double: "rnd53 (absDev med x) = absDev med x"
  by (simp add: absDev_rnd53 rnd53_idem)

text \<open>A deviation of magnitude at most \<open>2^53\<close> is computed exactly.\<close>

lemma absDev_exact: "\<bar>x - med\<bar> \<le> 2 ^ 53 \<Longrightarrow> absDev med x = \<bar>x - med\<bar>"
  by (simp add: absDev_def rnd53_safe_integer)

text \<open>A rounded deviation is at most 3 exactly when the deviation is.\<close>

lemma absDev_le_3: "absDev med x \<le> 3 \<longleftrightarrow> \<bar>x - med\<bar> \<le> 3"
proof
  assume "\<bar>x - med\<bar> \<le> 3"
  then show "absDev med x \<le> 3" by (simp add: absDev_exact)
next
  assume a: "absDev med x \<le> 3"
  show "\<bar>x - med\<bar> \<le> 3"
  proof (rule ccontr)
    assume "\<not> \<bar>x - med\<bar> \<le> 3"
    then have "4 \<le> \<bar>x - med\<bar>" by simp
    then have "rnd53 4 \<le> rnd53 \<bar>x - med\<bar>" by (rule rnd53_mono)
    moreover have "rnd53 4 = 4" by (rule rnd53_safe_integer) simp
    ultimately show False using a by (simp add: absDev_rnd53)
  qed
qed

text \<open>Above the size guard, the filter is the source's \<^verbatim>\<open>xs.filter(...)\<close>.\<close>

lemma rmOutliers_large:
  "4 \<le> length xs \<Longrightarrow>
   rmOutliers xs =
     filter (\<lambda>x. absDev (median xs) x \<le>
        rnd53 (3 * (if median (map (absDev (median xs)) xs) \<noteq> 0
                    then median (map (absDev (median xs)) xs) else 1))) xs"
  by (simp add: rmOutliers_def Let_def)

lemma rmOutliers_nonempty:
  assumes "xs \<noteq> []"
  shows "rmOutliers xs \<noteq> []"
proof (cases "length xs < 4")
  case True
  then show ?thesis using assms by (simp add: rmOutliers_def)
next
  case False
  define med where "med = median xs"
  define ds where "ds = map (absDev med) xs"
  define mad0 where "mad0 = median ds"
  define mad where "mad = (if mad0 \<noteq> 0 then mad0 else 1)"
  have ds_ne: "ds \<noteq> []" using assms by (simp add: ds_def)
  then obtain d where d_in: "d \<in> set ds" and d_min: "\<forall>e\<in>set ds. d \<le> e"
    by (metis List.finite_set Min_in Min_le set_empty)
  obtain x where x_in: "x \<in> set xs" and x_d: "absDev med x = d"
    using d_in by (auto simp: ds_def)
  have d0: "0 \<le> d" using x_d absDev_nonneg[of med x] by simp
  have dd: "rnd53 d = d" using x_d absDev_double[of med x] by simp
  then have "rnd53 (2 * d) = 2 * d" by (rule rnd53_twice)
  with ds_ne d_min have "d \<le> mad0" unfolding mad0_def by (rule median_ge)
  then have "d \<le> 3 * mad" using d0 by (auto simp: mad_def)
  then have "rnd53 d \<le> rnd53 (3 * mad)" by (rule rnd53_mono)
  then have "x \<in> set (filter (\<lambda>x. absDev med x \<le> rnd53 (3 * mad)) xs)"
    using x_in x_d dd by simp
  moreover have "rmOutliers xs = filter (\<lambda>x. absDev med x \<le> rnd53 (3 * mad)) xs"
    using False by (simp add: rmOutliers_def Let_def med_def ds_def mad0_def mad_def)
  ultimately show ?thesis by (metis empty_iff empty_set)
qed

text \<open>
  On values between 0 and \<open>2^52\<close> no operation of the filter rounds in a way that
  matters: the median and the deviations are exact and stay in that range, and the
  rounded threshold admits the same deviations as the exact one.
\<close>

lemma median_in_range:
  assumes "xs \<noteq> []" and "\<forall>x\<in>set xs. 0 \<le> x \<and> x \<le> 4503599627370496"
  shows "0 \<le> median xs \<and> median xs \<le> 4503599627370496"
proof
  have "rnd53 (2 * 0) = 2 * 0" by (simp add: rnd53_zero)
  then show "0 \<le> median xs" using assms by (intro median_ge) auto
  have "rnd53 (2 * 4503599627370496) = 2 * 4503599627370496"
    by (rule rnd53_safe_integer) simp
  then show "median xs \<le> 4503599627370496" using assms by (intro median_le) auto
qed

lemma threshold_in_range:
  assumes "0 \<le> d" "d \<le> 4503599627370496" "0 \<le> mad"
  shows "d \<le> rnd53 (3 * mad) \<longleftrightarrow> d \<le> 3 * mad"
proof (cases "3 * mad \<le> 9007199254740992")
  case True
  then have "rnd53 (3 * mad) = 3 * mad" using assms(3) by (intro rnd53_safe_integer) simp
  then show ?thesis by simp
next
  case False
  then have "9007199254740992 \<le> 3 * mad" by simp
  then have "rnd53 9007199254740992 \<le> rnd53 (3 * mad)" by (rule rnd53_mono)
  moreover have "rnd53 9007199254740992 = 9007199254740992"
    by (rule rnd53_safe_integer) simp
  ultimately show ?thesis using False assms(2) by linarith
qed

lemma rmOutliers_in_range:
  assumes "4 \<le> length xs" and "\<forall>x\<in>set xs. 0 \<le> x \<and> x \<le> 4503599627370496"
  shows "rmOutliers xs =
     filter (\<lambda>x. \<bar>x - median xs\<bar> \<le>
        3 * (if median (map (\<lambda>y. \<bar>y - median xs\<bar>) xs) = 0 then 1
             else median (map (\<lambda>y. \<bar>y - median xs\<bar>) xs))) xs"
proof -
  define med where "med = median xs"
  define ds where "ds = map (\<lambda>y. \<bar>y - med\<bar>) xs"
  define mad where "mad = (if median ds \<noteq> 0 then median ds else 1)"
  have ne: "xs \<noteq> []" using assms(1) by auto
  have m: "0 \<le> med" "med \<le> 4503599627370496"
    using median_in_range[OF ne assms(2)] by (simp_all add: med_def)
  have dev: "absDev med x = \<bar>x - med\<bar>" "0 \<le> \<bar>x - med\<bar>" "\<bar>x - med\<bar> \<le> 4503599627370496"
    if "x \<in> set xs" for x
  proof -
    have "0 \<le> x" "x \<le> 4503599627370496" using assms(2) that by auto
    then show "\<bar>x - med\<bar> \<le> 4503599627370496" using m by linarith
    then show "absDev med x = \<bar>x - med\<bar>" by (intro absDev_exact) simp
    show "0 \<le> \<bar>x - med\<bar>" by simp
  qed
  have ds_eq: "map (absDev med) xs = ds" unfolding ds_def by (rule map_cong) (simp_all add: dev)
  have "ds \<noteq> []" using ne by (simp add: ds_def)
  moreover have "\<forall>d\<in>set ds. 0 \<le> d \<and> d \<le> 4503599627370496"
    using dev by (auto simp: ds_def)
  ultimately have "0 \<le> median ds" by (simp add: median_in_range)
  then have mad0: "0 \<le> mad" by (simp add: mad_def)
  have "rmOutliers xs = filter (\<lambda>x. absDev med x \<le> rnd53 (3 * mad)) xs"
    using rmOutliers_large[OF assms(1)] by (simp add: med_def[symmetric] ds_eq mad_def)
  also have "\<dots> = filter (\<lambda>x. \<bar>x - med\<bar> \<le> 3 * mad) xs"
    by (rule filter_cong) (simp_all add: dev threshold_in_range mad0)
  finally show ?thesis by (simp add: med_def ds_def mad_def cong: if_cong)
qed

subsection \<open>The claims about median and the outlier filter\<close>

text \<open>
  C1, as amended. The median of the empty sequence is 0. For a sequence of odd length \<open>n\<close>
  it is the element at index \<open>n div 2\<close> of the ascending arrangement of the sequence. For
  a non-empty sequence of even length whose two middle elements (indices \<open>n div 2 - 1\<close>
  and \<open>n div 2\<close> of that arrangement) have a sum of magnitude at most
  \<open>2^53 = 9007199254740992\<close>, as is the case when no value exceeds \<open>2^52\<close>, it is the
  floor of the average of those two elements. The ascending arrangement is any sorted list
  \<open>ys\<close> with the same elements, counted with multiplicity. In particular the median of
  \<open>[1,3]\<close> is 2 and that of \<open>[1,2,3]\<close> is 2.
\<close>

theorem median_correct:
  "median [] = 0 \<and>
   (sorted ys \<and> mset ys = mset xs \<and> odd (length xs)
      \<longrightarrow> median xs = ys ! (length xs div 2)) \<and>
   (sorted ys \<and> mset ys = mset xs \<and> even (length xs) \<and> xs \<noteq> [] \<and>
    \<bar>ys ! (length xs div 2 - 1) + ys ! (length xs div 2)\<bar> \<le> 9007199254740992
      \<longrightarrow> median xs = (ys ! (length xs div 2 - 1) + ys ! (length xs div 2)) div 2) \<and>
   median [1, 3] = 2 \<and> median [1, 2, 3] = 2"
proof -
  have "median [] = 0" by (simp add: median_def)
  moreover have "median [1, 3] = 2" "median [1, 2, 3] = 2" by code_simp+
  moreover have "median xs = ys ! (length xs div 2)"
    if "sorted ys" "mset ys = mset xs" "odd (length xs)"
    using median_sorted_perm[OF that(1,2)] that(3) by auto
  moreover have "median xs = (ys ! (length xs div 2 - 1) + ys ! (length xs div 2)) div 2"
    if "sorted ys" "mset ys = mset xs" "even (length xs)" "xs \<noteq> []"
      "\<bar>ys ! (length xs div 2 - 1) + ys ! (length xs div 2)\<bar> \<le> 9007199254740992"
  proof -
    have "rnd53 (ys ! (length xs div 2 - 1) + ys ! (length xs div 2))
        = ys ! (length xs div 2 - 1) + ys ! (length xs div 2)"
      using that(5) by (intro rnd53_safe_integer) simp
    then show ?thesis using median_sorted_perm[OF that(1,2)] that(3,4) by auto
  qed
  ultimately show ?thesis by blast
qed

theorem median_correct_witness:
  "sorted [2, 4, 9 :: int] \<and> mset [2, 4, 9 :: int] = mset [9, 2, 4] \<and>
   odd (length [9, 2, 4 :: int]) \<and> median [9, 2, 4] = [2, 4, 9] ! (length [9, 2, 4 :: int] div 2) \<and>
   sorted [1, 3, 6, 8 :: int] \<and> mset [1, 3, 6, 8 :: int] = mset [8, 1, 6, 3] \<and>
   even (length [8, 1, 6, 3 :: int]) \<and> [8, 1, 6, 3 :: int] \<noteq> [] \<and>
   \<bar>[1, 3, 6, 8] ! (length [8, 1, 6, 3 :: int] div 2 - 1)
      + [1, 3, 6, 8] ! (length [8, 1, 6, 3 :: int] div 2)\<bar> \<le> (9007199254740992 :: int) \<and>
   median [8, 1, 6, 3] =
     ([1, 3, 6, 8] ! (length [8, 1, 6, 3 :: int] div 2 - 1)
      + [1, 3, 6, 8] ! (length [8, 1, 6, 3 :: int] div 2)) div 2"
proof -
  have o: "sorted [2, 4, 9 :: int] \<and> mset [2, 4, 9 :: int] = mset [9, 2, 4] \<and>
      odd (length [9, 2, 4 :: int])"
    by (simp add: add_mset_commute)
  have e: "sorted [1, 3, 6, 8 :: int] \<and> mset [1, 3, 6, 8 :: int] = mset [8, 1, 6, 3] \<and>
      even (length [8, 1, 6, 3 :: int]) \<and> [8, 1, 6, 3 :: int] \<noteq> [] \<and>
      \<bar>[1, 3, 6, 8] ! (length [8, 1, 6, 3 :: int] div 2 - 1)
        + [1, 3, 6, 8] ! (length [8, 1, 6, 3 :: int] div 2)\<bar> \<le> (9007199254740992 :: int)"
    by (simp add: add_mset_commute)
  show ?thesis
    using o e median_correct [of "[2, 4, 9]" "[9, 2, 4]"]
      median_correct [of "[1, 3, 6, 8]" "[8, 1, 6, 3]"]
    by blast
qed

text \<open>
  Without the bound the even case fails: the sum of \<open>2^53 - 1\<close> and \<open>2^53\<close> is
  \<open>2^54 - 1\<close>, which rounds to \<open>2^54\<close>, so the code returns \<open>2^53\<close> where the floor of the
  average is \<open>2^53 - 1\<close>.
\<close>

theorem median_correct_counterexample:
  "sorted [9007199254740991, 9007199254740992 :: int] \<and>
   median [9007199254740991, 9007199254740992] = 9007199254740992 \<and>
   (9007199254740991 + 9007199254740992) div 2 = (9007199254740991 :: int)"
proof -
  have "median [9007199254740991, 9007199254740992] = 9007199254740992" by code_simp
  then show ?thesis by simp
qed

text \<open>
  C2, as amended. On a sequence of at least four integers between 0 and
  \<open>2^52 = 4503599627370496\<close> the outlier filter keeps exactly the elements \<open>x\<close> with
  \<open>|x - med| \<le> 3 * mad\<close>, in their original order, where \<open>med\<close> is the median of the
  whole sequence and \<open>mad\<close> is the median of the absolute deviations from \<open>med\<close>, replaced
  by 1 when it is 0. On \<open>[100,102,98,101,99,9999]\<close> it drops 9999 and keeps the other
  five values in order.
\<close>

theorem rmOutliers_keeps_exactly:
  "(4 \<le> length xs \<and> (\<forall>x\<in>set xs. 0 \<le> x \<and> x \<le> 4503599627370496) \<longrightarrow>
      rmOutliers xs =
        filter (\<lambda>x. \<bar>x - median xs\<bar> \<le>
           3 * (if median (map (\<lambda>y. \<bar>y - median xs\<bar>) xs) = 0 then 1
                else median (map (\<lambda>y. \<bar>y - median xs\<bar>) xs))) xs) \<and>
   rmOutliers [100, 102, 98, 101, 99, 9999] = [100, 102, 98, 101, 99]"
proof -
  have "rmOutliers [100, 102, 98, 101, 99, 9999] = [100, 102, 98, 101, 99]"
    by code_simp
  then show ?thesis using rmOutliers_in_range[of xs] by blast
qed

theorem rmOutliers_keeps_exactly_witness:
  "4 \<le> length [10, 12, 11, 50, 9 :: int] \<and>
   list_all (\<lambda>x. 0 \<le> x \<and> x \<le> 4503599627370496) [10, 12, 11, 50, 9 :: int] \<and>
   rmOutliers [10, 12, 11, 50, 9] =
     filter (\<lambda>x. \<bar>x - median [10, 12, 11, 50, 9]\<bar> \<le>
        3 * (if median (map (\<lambda>y. \<bar>y - median [10, 12, 11, 50, 9]\<bar>) [10, 12, 11, 50, 9]) = 0
             then 1
             else median (map (\<lambda>y. \<bar>y - median [10, 12, 11, 50, 9]\<bar>) [10, 12, 11, 50, 9])))
       [10, 12, 11, 50, 9] \<and>
   rmOutliers [10, 12, 11, 50, 9] = [10, 12, 11, 9]"
proof -
  have l: "list_all (\<lambda>x. 0 \<le> x \<and> x \<le> 4503599627370496) [10, 12, 11, 50, 9 :: int]"
    by simp
  then have h: "4 \<le> length [10, 12, 11, 50, 9 :: int] \<and>
      (\<forall>x\<in>set [10, 12, 11, 50, 9 :: int]. 0 \<le> x \<and> x \<le> 4503599627370496)"
    unfolding list_all_iff by simp
  have v: "rmOutliers [10, 12, 11, 50, 9] = [10, 12, 11, 9]" by code_simp
  show ?thesis
    using l h v rmOutliers_keeps_exactly [of "[10, 12, 11, 50, 9]"] by blast
qed

text \<open>
  Without the bound the claim fails. In the sequence below the median is
  \<open>3002399751580334\<close>, the deviations are computed exactly and their median is
  \<open>3002399751580333\<close>; three times that is \<open>9007199254740999\<close>, which rounds to
  \<open>9007199254741000\<close>, the deviation of the last element. The code keeps the last
  element although its deviation exceeds \<open>3 * mad\<close>.
\<close>

theorem rmOutliers_keeps_exactly_counterexample:
  "rmOutliers [1, 1, 3002399751580334, 6004799503160667, 12009599006321334]
     = [1, 1, 3002399751580334, 6004799503160667, 12009599006321334] \<and>
   median [1, 1, 3002399751580334, 6004799503160667, 12009599006321334] = 3002399751580334 \<and>
   median [3002399751580333, 3002399751580333, 0, 3002399751580333, 9007199254741000]
     = 3002399751580333 \<and>
   \<not> \<bar>12009599006321334 - 3002399751580334\<bar> \<le> 3 * (3002399751580333 :: int)"
proof -
  have "rmOutliers [1, 1, 3002399751580334, 6004799503160667, 12009599006321334]
     = [1, 1, 3002399751580334, 6004799503160667, 12009599006321334]" by code_simp
  moreover have
    "median [1, 1, 3002399751580334, 6004799503160667, 12009599006321334] = 3002399751580334"
    by code_simp
  moreover have
    "median [3002399751580333, 3002399751580333, 0, 3002399751580333, 9007199254741000]
     = 3002399751580333" by code_simp
  ultimately show ?thesis by simp
qed

text \<open>
  C3. A sequence with fewer than four elements passes the outlier filter unchanged: the
  result is the input itself, same elements in the same order.
\<close>

theorem rmOutliers_small_unchanged:
  "length xs < 4 \<Longrightarrow> rmOutliers xs = xs"
  by (simp add: rmOutliers_def)

theorem rmOutliers_small_unchanged_witness:
  "length [7, 900, 3 :: int] < 4 \<and> rmOutliers [7, 900, 3] = [7, 900, 3]"
  using rmOutliers_small_unchanged [of "[7, 900, 3]"] by simp

text \<open>
  C7, as amended. On a sequence of at least four elements whose median absolute
  deviation computes to 0, the filter uses 1 in its place and keeps exactly the elements
  within 3 units of the median (\<open>|x - med| \<le> 3\<close>), in order; the elements more than 3
  units away are the ones it drops.
\<close>

theorem rmOutliers_zero_mad:
  "4 \<le> length xs \<Longrightarrow> median (map (\<lambda>y. \<bar>y - median xs\<bar>) xs) = 0 \<Longrightarrow>
   rmOutliers xs = filter (\<lambda>x. \<bar>x - median xs\<bar> \<le> 3) xs"
proof -
  assume len: "4 \<le> length xs" and z: "median (map (\<lambda>y. \<bar>y - median xs\<bar>) xs) = 0"
  have fn: "absDev (median xs) = (\<lambda>y. rnd53 \<bar>y - median xs\<bar>)"
    by (rule ext) (rule absDev_rnd53)
  have m: "map (absDev (median xs)) xs = map rnd53 (map (\<lambda>y. \<bar>y - median xs\<bar>) xs)"
    unfolding fn by (simp add: comp_def)
  have "median (map rnd53 (map (\<lambda>y. \<bar>y - median xs\<bar>) xs)) = 0"
    using z by (intro median_map_rnd53_zero) auto
  then have mad0: "median (map (absDev (median xs)) xs) = 0" by (simp only: m)
  have three: "rnd53 3 = 3" by (rule rnd53_safe_integer) simp
  have "rmOutliers xs = filter (\<lambda>x. absDev (median xs) x \<le> 3) xs"
    using rmOutliers_large[OF len] mad0 three by simp
  then show ?thesis by (simp add: absDev_le_3)
qed

theorem rmOutliers_zero_mad_witness:
  "4 \<le> length [5, 5, 8, 5, 5, 9, 100 :: int] \<and>
   median (map (\<lambda>y. \<bar>y - median [5, 5, 8, 5, 5, 9, 100]\<bar>) [5, 5, 8, 5, 5, 9, 100]) = 0 \<and>
   rmOutliers [5, 5, 8, 5, 5, 9, 100] =
     filter (\<lambda>x. \<bar>x - median [5, 5, 8, 5, 5, 9, 100]\<bar> \<le> 3) [5, 5, 8, 5, 5, 9, 100] \<and>
   rmOutliers [5, 5, 8, 5, 5, 9, 100] = [5, 5, 8, 5, 5]"
proof -
  have h: "4 \<le> length [5, 5, 8, 5, 5, 9, 100 :: int]" by simp
  have z: "median (map (\<lambda>y. \<bar>y - median [5, 5, 8, 5, 5, 9, 100]\<bar>) [5, 5, 8, 5, 5, 9, 100]) = 0"
    by code_simp
  have v: "rmOutliers [5, 5, 8, 5, 5, 9, 100] = [5, 5, 8, 5, 5]" by code_simp
  show ?thesis using h z v rmOutliers_zero_mad [OF h z] by simp
qed

text \<open>
  The claim as written fails: on \<open>[5,5,5,5,100]\<close> the deviations are \<open>[0,0,0,0,95]\<close>, their
  median is 0, the survivors are the four values at distance 0 from the median and the
  value at distance 95 is removed.
\<close>

theorem rmOutliers_zero_mad_counterexample:
  "median [5, 5, 5, 5, 100] = 5 \<and>
   median (map (absDev 5) [5, 5, 5, 5, 100]) = 0 \<and>
   rmOutliers [5, 5, 5, 5, 100] = [5, 5, 5, 5] \<and>
   \<not> 3 < absDev 5 5 \<and> 3 < absDev 5 100"
  by code_simp

text \<open>
  C8. The result of the outlier filter is a subsequence of its input, and the result for
  a non-empty input is non-empty.
\<close>

theorem rmOutliers_subseq_nonempty:
  "subseq (rmOutliers xs) xs \<and> (xs \<noteq> [] \<longrightarrow> rmOutliers xs \<noteq> [])"
proof
  show "subseq (rmOutliers xs) xs" by (simp add: rmOutliers_def Let_def)
  show "xs \<noteq> [] \<longrightarrow> rmOutliers xs \<noteq> []" using rmOutliers_nonempty by blast
qed

theorem rmOutliers_subseq_nonempty_witness:
  "[1, 1000, 2, 3000 :: int] \<noteq> [] \<and>
   subseq (rmOutliers [1, 1000, 2, 3000]) [1, 1000, 2, 3000] \<and>
   rmOutliers [1, 1000, 2, 3000] \<noteq> []"
  using rmOutliers_subseq_nonempty [of "[1, 1000, 2, 3000]"] by blast

subsection \<open>Facts about the recommendation\<close>

text \<open>
  The constant \<open>jitter\<close> is within half a unit of \<open>0.12 * 2^56\<close> and has 53 bits, so it
  is the double nearest to 0.12; \<open>1 + jitter\<close> rounds to the double nearest to 1.12,
  which exceeds 1.12 by \<open>7.68 / 2^56\<close>.
\<close>

lemma onePlusJitter_value: "onePlusJitter = 80704505322479296"
  by code_simp

lemma onePlusJitter_nearest: "\<bar>100 * onePlusJitter - 112 * 2 ^ 56\<bar> = 768"
  by (simp add: onePlusJitter_value)

lemma jitter_nearest: "\<bar>100 * jitter - 12 * 2 ^ 56\<bar> \<le> 50 \<and> 2 ^ 52 \<le> jitter \<and> jitter < 2 ^ 53"
  by (simp add: jitter_def)

lemma rem_112_100: "((b::int) * 112) mod 100 \<le> 96" 
proof -
  have "(4 * (b * 28)) mod (4 * 25) = 4 * ((b * 28) mod 25)" by (rule mult_mod_right[symmetric])
  moreover have "(b * 28) mod 25 < 25" by simp
  ultimately have "(4 * (b * 28)) mod (4 * 25) \<le> 96" by linarith
  moreover have "4 * (b * 28) = b * 112" "(4::int) * 25 = 100" by simp_all
  ultimately show ?thesis by simp
qed


lemma scaled_floor_exact:
  assumes "0 \<le> b" "b \<le> 200000000000000"
  shows "rnd53 (b * onePlusJitter) div 2 ^ 56 = (b * 112) div 100"
proof -
  define F where "F = (b * 112) div 100"
  define r where "r = (b * 112) mod 100"
  define x where "x = rnd53 (b * 80704505322479296)"
  have split: "b * 112 = 100 * F + r"
    unfolding F_def r_def by (rule mult_div_mod_eq[symmetric])
  have r0: "0 \<le> r" by (simp add: r_def)
  have r96: "r \<le> 96" unfolding r_def by (rule rem_112_100)
  have F0: "0 \<le> F" using assms(1) split r96 by linarith
  have "F < 9007199254740992" using assms(2) split r0 by linarith
  then have Fhi: "F < 2 ^ 53" by simp
  have "F * 72057594037927936 \<le> b * 80704505322479296" using split r0 assms(1) by linarith
  then have "F * 2 ^ 56 \<le> b * 80704505322479296" by simp
  then have "rnd53 (F * 2 ^ 56) \<le> x" unfolding x_def by (rule rnd53_mono)
  then have "F * 2 ^ 56 \<le> x" using rnd53_exact[OF F0 Fhi, of 56] by simp
  then have lo: "F * 72057594037927936 \<le> x" by simp
  have "b * 80704505322479296 < 20282409603651670423947251286016" using assms(2) by linarith
  then have "b * 80704505322479296 < 2 ^ 104" by simp
  moreover have "0 \<le> b * 80704505322479296" using assms(1) by simp
  ultimately have "2 * x \<le> 2 * (b * 80704505322479296) + 2 ^ (104 - 53)"
    unfolding x_def by (intro rnd53_half)
  then have "2 * x \<le> 2 * (b * 80704505322479296) + 2251799813685248" by simp
  then have hi: "x < F * 72057594037927936 + 72057594037927936"
    using split r96 assms(2) by linarith
  have "x div 72057594037927936 = F"
  proof (rule int_div_pos_eq)
    show "x = 72057594037927936 * F + (x - F * 72057594037927936)" by simp
    show "0 \<le> x - F * 72057594037927936" using lo by simp
    show "x - F * 72057594037927936 < 72057594037927936" using hi by linarith
  qed
  then have "rnd53 (b * onePlusJitter) div 2 ^ 56 = F"
    unfolding x_def onePlusJitter_value by simp
  then show ?thesis unfolding F_def .
qed

lemma onePlusJitter_pos: "0 < onePlusJitter"
  by (simp add: onePlusJitter_value)

text \<open>The floored product is a non-negative integer, monotone in the base fee.\<close>

lemma floored_product_mono:
  assumes "b \<le> b'"
  shows "rnd53 (b * onePlusJitter) div 2 ^ 56 \<le> rnd53 (b' * onePlusJitter) div 2 ^ 56"
proof -
  have "b * onePlusJitter \<le> b' * onePlusJitter"
    using assms onePlusJitter_pos by (simp add: mult_right_mono)
  then have "rnd53 (b * onePlusJitter) \<le> rnd53 (b' * onePlusJitter)" by (rule rnd53_mono)
  then show ?thesis by (rule zdiv_mono1) simp
qed

lemma floored_product_nonneg:
  assumes "0 \<le> b"
  shows "0 \<le> rnd53 (b * onePlusJitter) div 2 ^ 56"
proof -
  have "0 \<le> b * onePlusJitter" using assms onePlusJitter_pos by simp
  then have "0 \<le> rnd53 (b * onePlusJitter)" by (rule rnd53_nonneg)
  then show ?thesis by (simp add: pos_imp_zdiv_nonneg_iff)
qed

subsection \<open>The claims about the recommendation\<close>

text \<open>
  C4, as amended. For a base-fee median \<open>b\<close> with \<open>0 \<le> b \<le> 2 * 10^14\<close> and a
  priority-fee median \<open>p \<le> 8 * 10^15\<close>, the recommendation equals
  \<open>floor (b * (1 + 0.12)) + max p 1000000\<close>, the product, the floor and the sum taken
  over the real numbers; for \<open>p = 0\<close> it is \<open>floor (b * 1.12) + 1000000\<close>.
\<close>

theorem rec_formula:
  "0 \<le> b \<Longrightarrow> b \<le> 200000000000000 \<Longrightarrow> p \<le> 8000000000000000 \<Longrightarrow>
   rec b p = \<lfloor>of_int b * (1 + 0.12 :: real)\<rfloor> + max p 1000000 \<and>
   rec b 0 = \<lfloor>of_int b * (1.12 :: real)\<rfloor> + 1000000"
proof -
  assume b: "0 \<le> b" "b \<le> 200000000000000" and p: "p \<le> 8000000000000000"
  have "of_int b * (1 + 0.12 :: real) = of_int (b * 112) / of_int 100" by simp
  then have f: "\<lfloor>of_int b * (1 + 0.12 :: real)\<rfloor> = (b * 112) div 100"
    by (simp only: floor_divide_of_int_eq)
  have "of_int b * (1.12 :: real) = of_int (b * 112) / of_int 100" by simp
  then have g: "\<lfloor>of_int b * (1.12 :: real)\<rfloor> = (b * 112) div 100"
    by (simp only: floor_divide_of_int_eq)
  define F where "F = (b * 112) div 100"
  have F0: "0 \<le> F" using b(1) by (simp add: F_def pos_imp_zdiv_nonneg_iff)
  have "100 * F \<le> b * 112"
    unfolding F_def using mult_div_mod_eq[of 100 "b * 112"] pos_mod_sign[of 100 "b * 112"]
    by linarith
  then have Fhi: "F \<le> 224000000000000" using b(2) by linarith
  have sum: "rec b q = F + max q 1000000" if q: "q \<le> 8000000000000000" for q
  proof -
    have "\<bar>F + max q 1000000\<bar> \<le> 2 ^ 53" using F0 Fhi q by simp
    then have "rnd53 (F + max q 1000000) = F + max q 1000000" by (rule rnd53_safe_integer)
    then show ?thesis using scaled_floor_exact[OF b] by (simp add: rec_def F_def)
  qed
  have "rec b p = F + max p 1000000" using p by (rule sum)
  moreover have "rec b 0 = F + 1000000" using sum[of 0] by simp
  ultimately show ?thesis unfolding f g F_def by simp
qed

theorem rec_formula_witness:
  "(0::int) \<le> 100 \<and> (100::int) \<le> 200000000000000 \<and> (10::int) \<le> 8000000000000000 \<and>
   rec 100 10 = \<lfloor>of_int 100 * (1 + 0.12 :: real)\<rfloor> + max 10 1000000 \<and>
   rec 100 0 = \<lfloor>of_int 100 * (1.12 :: real)\<rfloor> + 1000000 \<and>
   rec 100 10 = 1000112"
proof -
  have v: "rec 100 10 = 1000112" by code_simp
  show ?thesis using v rec_formula [of 100 10] by simp
qed

text \<open>
  Without the bounds the equation fails: at \<open>b = 229000000000008\<close> the exact product is
  \<open>256480000000008.96\<close>, the double product rounds to \<open>256480000000009\<close>, and the
  code returns one more than the formula.
\<close>

theorem rec_formula_counterexample:
  "rec 229000000000008 0 = 256480001000009 \<and>
   \<lfloor>of_int 229000000000008 * (1 + 0.12 :: real)\<rfloor> + max 0 1000000 = (256480001000008 :: int)"
proof
  show "rec 229000000000008 0 = 256480001000009" by code_simp
  show "\<lfloor>of_int 229000000000008 * (1 + 0.12 :: real)\<rfloor> + max 0 1000000
      = (256480001000008 :: int)" by simp
qed

text \<open>
  C5. The recommendation is monotonic non-decreasing in both arguments over the
  non-negative integers, it is at least the effective tip \<open>max p 1000000\<close> for every
  priority fee \<open>p\<close> that is a double (\<open>rnd53 p = p\<close>, as every number of the program
  is), and the effective tip is at least the minimum tip 1000000.
\<close>

theorem rec_monotone:
  "0 \<le> b \<Longrightarrow> b \<le> b' \<Longrightarrow> 0 \<le> p \<Longrightarrow> p \<le> p' \<Longrightarrow>
   rec b p \<le> rec b' p' \<and> (rnd53 p = p \<longrightarrow> max p 1000000 \<le> rec b p) \<and>
   (1000000 :: int) \<le> max p 1000000"
proof -
  assume b: "0 \<le> b" "b \<le> b'" and p: "0 \<le> p" "p \<le> p'"
  have m: "rnd53 (b * onePlusJitter) div 2 ^ 56 \<le> rnd53 (b' * onePlusJitter) div 2 ^ 56"
    using b(2) by (rule floored_product_mono)
  have z: "0 \<le> rnd53 (b * onePlusJitter) div 2 ^ 56"
    using b(1) by (rule floored_product_nonneg)
  have t: "max p 1000000 \<le> max p' 1000000" using p(2) by simp
  have "rnd53 (rnd53 (b * onePlusJitter) div 2 ^ 56 + max p 1000000)
      \<le> rnd53 (rnd53 (b' * onePlusJitter) div 2 ^ 56 + max p' 1000000)"
    using m t by (intro rnd53_mono) linarith
  then have mono: "rec b p \<le> rec b' p'" by (simp add: rec_def)
  have tip: "max p 1000000 \<le> rec b p" if d: "rnd53 p = p"
  proof -
    have "rnd53 1000000 = 1000000" by (rule rnd53_safe_integer) simp
    then have "rnd53 (max p 1000000) = max p 1000000" using d by (simp add: max_def)
    moreover have "rnd53 (max p 1000000)
        \<le> rnd53 (rnd53 (b * onePlusJitter) div 2 ^ 56 + max p 1000000)"
      using z by (intro rnd53_mono) linarith
    ultimately show ?thesis by (simp add: rec_def)
  qed
  show ?thesis using mono tip by simp
qed

theorem rec_monotone_witness:
  "(0::int) \<le> 100 \<and> (100::int) \<le> 101 \<and> (0::int) \<le> 10 \<and> (10::int) \<le> 2000000 \<and>
   rnd53 10 = 10 \<and>
   rec 100 10 \<le> rec 101 2000000 \<and> max 10 1000000 \<le> rec 100 10 \<and>
   (1000000 :: int) \<le> max 10 1000000"
proof -
  have d: "rnd53 10 = 10" by code_simp
  show ?thesis using d rec_monotone [of 100 101 10 2000000] by simp
qed

subsection \<open>The claims about the aggregation run\<close>

text \<open>
  C6. On an empty sample set the run fails hard: it reports "no samples" on the error
  channel and ends the process with the non-zero status 1, and no recommendation is
  produced.
\<close>

theorem aggregate_empty_fatal:
  "aggregate [] = Exit ''no samples'' 1 \<and> (1::nat) \<noteq> 0 \<and> (\<forall>r. aggregate [] \<noteq> Logged r)"
  by (simp add: aggregate_def)

text \<open>
  C10. For a non-empty sample set the run produces a recommendation whose participating
  providers are the names of all samples of the input, in collection order, whatever the
  outlier filter does to their fee values.
\<close>

theorem aggregate_providers:
  "samples \<noteq> [] \<Longrightarrow>
   (\<exists>r. aggregate samples = Logged r \<and> providers r = map name samples \<and>
        set (providers r) = name ` set samples)"
  by (simp add: aggregate_def Let_def)

text \<open>
  In the witness the base fee 9999 of provider \<open>d\<close> and the priority fee 700 of provider
  \<open>b\<close> are removed by the filter; both providers are reported.
\<close>

theorem aggregate_providers_witness:
  "[\<lparr>name = ''a'', base = 100, prio = 10, block = 1\<rparr>,
    \<lparr>name = ''b'', base = 102, prio = 700, block = 1\<rparr>,
    \<lparr>name = ''c'', base = 98, prio = 8, block = 1\<rparr>,
    \<lparr>name = ''d'', base = 9999, prio = 9, block = 1\<rparr>,
    \<lparr>name = ''e'', base = 101, prio = 11, block = 1\<rparr> :: int Sample] \<noteq> [] \<and>
   rmOutliers [100, 102, 98, 9999, 101] = [100, 102, 98, 101] \<and>
   rmOutliers [10, 700, 8, 9, 11] = [10, 8, 9, 11] \<and>
   (\<exists>r. aggregate
          [\<lparr>name = ''a'', base = 100, prio = 10, block = 1\<rparr>,
           \<lparr>name = ''b'', base = 102, prio = 700, block = 1\<rparr>,
           \<lparr>name = ''c'', base = 98, prio = 8, block = 1\<rparr>,
           \<lparr>name = ''d'', base = 9999, prio = 9, block = 1\<rparr>,
           \<lparr>name = ''e'', base = 101, prio = 11, block = 1\<rparr>] = Logged r \<and>
        providers r = [''a'', ''b'', ''c'', ''d'', ''e''])"
proof -
  let ?s = "[\<lparr>name = ''a'', base = 100, prio = 10, block = 1\<rparr>,
    \<lparr>name = ''b'', base = 102, prio = 700, block = 1\<rparr>,
    \<lparr>name = ''c'', base = 98, prio = 8, block = 1\<rparr>,
    \<lparr>name = ''d'', base = 9999, prio = 9, block = 1\<rparr>,
    \<lparr>name = ''e'', base = 101, prio = 11, block = 1\<rparr> :: int Sample]"
  have ne: "?s \<noteq> []" by simp
  have f1: "rmOutliers [100, 102, 98, 9999, 101] = [100, 102, 98, 101]" by code_simp
  have f2: "rmOutliers [10, 700, 8, 9, 11] = [10, 8, 9, 11]" by code_simp
  obtain r where "aggregate ?s = Logged r" and "providers r = map name ?s"
    using aggregate_providers [OF ne] by blast
  then have "\<exists>r. aggregate ?s = Logged r \<and> providers r = [''a'', ''b'', ''c'', ''d'', ''e'']"
    by simp
  then show ?thesis using ne f1 f2 by blast
qed

subsection \<open>Facts about the collector\<close>

lemma sample_Rejects: "sample nm Rejects = None"
  by (simp add: sample_def)

lemma sample_nullish: "sample nm (Resolves JNull) = None" "sample nm (Resolves JUndefined) = None"
  by (simp_all add: sample_def)

lemma sample_Some_reply:
  assumes "sample nm reply = Some s"
  shows "\<exists>fee. reply = Resolves fee \<and> fee \<noteq> JNull \<and> fee \<noteq> JUndefined"
proof (cases reply)
  case Rejects
  then show ?thesis using assms by (simp add: sample_Rejects)
next
  case (Resolves fee)
  then have "fee \<noteq> JNull" "fee \<noteq> JUndefined" using assms sample_nullish by auto
  then show ?thesis using Resolves by simp
qed

lemma sample_Some_name:
  assumes "sample nm reply = Some s"
  shows "name s = nm"
  using assms
  by (auto simp: sample_def Let_def split: rpc_reply.splits Option.bind_splits)

lemma sample_no_fields:
  assumes "map_of kvs ''baseFeePerGas'' = None" "map_of kvs ''reward'' = None"
    "map_of kvs ''oldestBlock'' = None"
  shows "sample nm (Resolves (JObject kvs)) =
     Some \<lparr>name = nm, base = Num 0, prio = Num 0, block = Num 0\<rparr>"
proof -
  have "strToNumber ''0x0'' = Num 0" by code_simp
  then show ?thesis using assms
    by (simp add: sample_def js_or_def mapNumber_def sortNums_def indexNum_def numOr0_def)
qed

lemma collect_from_reply:
  assumes "s \<in> set (collect net rpcs)"
  shows "\<exists>nm url. (nm, url) \<in> set rpcs \<and> url \<noteq> [] \<and> sample nm (net url) = Some s"
  using assms
proof (induction rpcs)
  case Nil
  then show ?case by simp
next
  case (Cons e rpcs)
  obtain nm url where e: "e = (nm, url)" by (cases e)
  show ?case
  proof (cases "url \<noteq> [] \<and> sample nm (net url) = Some s")
    case True
    then show ?thesis using e by auto
  next
    case False
    then have "s \<in> set (collect net rpcs)"
      using Cons.prems e by (auto split: if_splits option.splits)
    then show ?thesis using Cons.IH by auto
  qed
qed

subsection \<open>The claim about the collector\<close>

text \<open>
  C9, as amended. A Sample is only ever constructed from a provider query that resolved
  with a value other than \<^verbatim>\<open>null\<close> and \<^verbatim>\<open>undefined\<close>, and it carries the provider's
  name: a query that throws, or resolves to \<^verbatim>\<open>null\<close> or \<^verbatim>\<open>undefined\<close>, produces no
  Sample, and every Sample in the collected list comes from such a resolved query of a
  configured provider with a non-empty url. A resolved object that has none of the fields
  \<^verbatim>\<open>baseFeePerGas\<close>, \<^verbatim>\<open>reward\<close> and \<^verbatim>\<open>oldestBlock\<close> does produce a Sample, with the
  three numbers defaulted to 0.
\<close>

theorem sample_only_from_resolved:
  "sample nm Rejects = None \<and>
   sample nm (Resolves JNull) = None \<and>
   sample nm (Resolves JUndefined) = None \<and>
   (sample nm reply = Some s \<longrightarrow>
      (\<exists>fee. reply = Resolves fee \<and> fee \<noteq> JNull \<and> fee \<noteq> JUndefined) \<and> name s = nm) \<and>
   (s \<in> set (collect net rpcs) \<longrightarrow>
      (\<exists>nm' url fee. (nm', url) \<in> set rpcs \<and> url \<noteq> [] \<and> net url = Resolves fee \<and>
         fee \<noteq> JNull \<and> fee \<noteq> JUndefined \<and> sample nm' (net url) = Some s)) \<and>
   (map_of kvs ''baseFeePerGas'' = None \<and> map_of kvs ''reward'' = None \<and>
    map_of kvs ''oldestBlock'' = None \<longrightarrow>
      sample nm (Resolves (JObject kvs)) =
        Some \<lparr>name = nm, base = Num 0, prio = Num 0, block = Num 0\<rparr>)"
proof -
  have a: "(\<exists>fee. reply = Resolves fee \<and> fee \<noteq> JNull \<and> fee \<noteq> JUndefined) \<and> name s = nm"
    if "sample nm reply = Some s"
    using sample_Some_reply[OF that] sample_Some_name[OF that] by simp
  have b: "\<exists>nm' url fee. (nm', url) \<in> set rpcs \<and> url \<noteq> [] \<and> net url = Resolves fee \<and>
         fee \<noteq> JNull \<and> fee \<noteq> JUndefined \<and> sample nm' (net url) = Some s"
    if mem: "s \<in> set (collect net rpcs)"
  proof -
    obtain nm' url where 1: "(nm', url) \<in> set rpcs" "url \<noteq> []" "sample nm' (net url) = Some s"
      using collect_from_reply[OF mem] by blast
    obtain fee where "net url = Resolves fee" "fee \<noteq> JNull" "fee \<noteq> JUndefined"
      using sample_Some_reply[OF 1(3)] by blast
    then show ?thesis using 1 by blast
  qed
  have c: "sample nm (Resolves (JObject kvs)) =
        Some \<lparr>name = nm, base = Num 0, prio = Num 0, block = Num 0\<rparr>"
    if "map_of kvs ''baseFeePerGas'' = None \<and> map_of kvs ''reward'' = None \<and>
        map_of kvs ''oldestBlock'' = None"
    using that by (intro sample_no_fields) simp_all
  show ?thesis
  proof (intro conjI impI)
    show "sample nm Rejects = None" by (rule sample_Rejects)
    show "sample nm (Resolves JNull) = None" by (rule sample_nullish(1))
    show "sample nm (Resolves JUndefined) = None" by (rule sample_nullish(2))
  qed (use a b c in \<open>simp_all\<close>)
qed

text \<open>
  In the witness the provider \<open>a\<close> rejects, \<open>b\<close> has no url and \<open>c\<close> answers with a
  fee history; the one Sample collected is that of \<open>c\<close>.
\<close>

theorem sample_only_from_resolved_witness:
  "sample ''c''
     (Resolves (JObject
        [(''baseFeePerGas'', JArray [JString ''0x3b9aca00'', JString ''0x3b9aca07'']),
         (''reward'', JArray [JArray [JString ''0x5f5e100'', JString ''0x3b9aca00'',
            JString ''0x77359400'']]),
         (''oldestBlock'', JString ''0x12a05f2'')]))
     = Some \<lparr>name = ''c'', base = Num 1000000000, prio = Num 1000000000,
          block = Num 19531250\<rparr> \<and>
   \<lparr>name = ''c'', base = Num 1000000000, prio = Num 1000000000, block = Num 19531250\<rparr>
     \<in> set (collect
         (\<lambda>u. if u = ''u1'' then Rejects
              else Resolves (JObject
                [(''baseFeePerGas'', JArray [JString ''0x3b9aca00'', JString ''0x3b9aca07'']),
                 (''reward'', JArray [JArray [JString ''0x5f5e100'', JString ''0x3b9aca00'',
                    JString ''0x77359400'']]),
                 (''oldestBlock'', JString ''0x12a05f2'')]))
         [(''a'', ''u1''), (''b'', []), (''c'', ''u3'')]) \<and>
   map_of ([] :: (string \<times> jsval) list) ''baseFeePerGas'' = None \<and>
   map_of ([] :: (string \<times> jsval) list) ''reward'' = None \<and>
   map_of ([] :: (string \<times> jsval) list) ''oldestBlock'' = None \<and>
   (\<exists>fee. Resolves (JObject
        [(''baseFeePerGas'', JArray [JString ''0x3b9aca00'', JString ''0x3b9aca07'']),
         (''reward'', JArray [JArray [JString ''0x5f5e100'', JString ''0x3b9aca00'',
            JString ''0x77359400'']]),
         (''oldestBlock'', JString ''0x12a05f2'')]) = Resolves fee \<and>
      fee \<noteq> JNull \<and> fee \<noteq> JUndefined) \<and>
   sample ''c'' (Resolves (JObject [])) =
     Some \<lparr>name = ''c'', base = Num 0, prio = Num 0, block = Num 0\<rparr>"
proof -
  let ?fee = "JObject
        [(''baseFeePerGas'', JArray [JString ''0x3b9aca00'', JString ''0x3b9aca07'']),
         (''reward'', JArray [JArray [JString ''0x5f5e100'', JString ''0x3b9aca00'',
            JString ''0x77359400'']]),
         (''oldestBlock'', JString ''0x12a05f2'')]"
  let ?s = "\<lparr>name = ''c'', base = Num 1000000000, prio = Num 1000000000,
          block = Num 19531250\<rparr>"
  let ?net = "\<lambda>u. if u = ''u1'' then Rejects else Resolves ?fee"
  let ?rpcs = "[(''a'', ''u1''), (''b'', []), (''c'', ''u3'')]"
  have h1: "sample ''c'' (Resolves ?fee) = Some ?s" by code_simp
  have "collect ?net ?rpcs = [?s]" by code_simp
  then have h2: "?s \<in> set (collect ?net ?rpcs)" by simp
  have h3: "map_of ([] :: (string \<times> jsval) list) ''baseFeePerGas'' = None \<and>
      map_of ([] :: (string \<times> jsval) list) ''reward'' = None \<and>
      map_of ([] :: (string \<times> jsval) list) ''oldestBlock'' = None" by simp
  from sample_only_from_resolved [of "''c''" "Resolves ?fee" ?s ?net ?rpcs "[]"] h1 h2 h3
  have "(\<exists>fee. Resolves ?fee = Resolves fee \<and> fee \<noteq> JNull \<and> fee \<noteq> JUndefined)"
    and "sample ''c'' (Resolves (JObject [])) =
      Some \<lparr>name = ''c'', base = Num 0, prio = Num 0, block = Num 0\<rparr>"
    by blast+
  then show ?thesis using h1 h2 h3 by blast
qed

text \<open>
  The claim as written fails on a response that cannot be parsed as a fee history: the
  empty object resolves to a Sample whose base fee, priority fee and block are all 0.
\<close>

theorem sample_zero_valued_counterexample:
  "sample ''public'' (Resolves (JObject [])) =
     Some \<lparr>name = ''public'', base = Num 0, prio = Num 0, block = Num 0\<rparr>"
  by code_simp

end
